theory Spec2Isabelle
  imports Main
begin

unbundle bit_operations_syntax

section \<open>Python values used by \<open>HiveAgent\<close>\<close>

text \<open>
  Exceptions. \<open>except Exception\<close> catches the instances of \<open>Exception\<close> only;
  \<open>asyncio.CancelledError\<close> (since Python 3.8), \<open>KeyboardInterrupt\<close> and \<open>SystemExit\<close>
  derive from \<open>BaseException\<close> directly and pass through such a handler.
\<close>

datatype py_exc =
    Exception string
  | OSError string
  | PermissionError string
  | TypeError string
  | RuntimeError string
  | CancelledError
  | KeyboardInterrupt
  | SystemExit

fun is_Exception :: "py_exc \<Rightarrow> bool" where
  "is_Exception (Exception _) = True"
| "is_Exception (OSError _) = True"
| "is_Exception (PermissionError _) = True"
| "is_Exception (TypeError _) = True"
| "is_Exception (RuntimeError _) = True"
| "is_Exception CancelledError = False"
| "is_Exception KeyboardInterrupt = False"
| "is_Exception SystemExit = False"

text \<open>
  The two exceptions that ask the interpreter to exit. A task of the event loop that
  raises one of them does not merely fail: asyncio stores the exception in the task and
  raises it again out of the running loop, which stops.
\<close>

fun exits_interpreter :: "py_exc \<Rightarrow> bool" where
  "exits_interpreter KeyboardInterrupt = True"
| "exits_interpreter SystemExit = True"
| "exits_interpreter _ = False"

text \<open>What a call or an awaited call ends with: a value, or a raised exception.\<close>

datatype 'a result = Returns 'a | Raises py_exc

text \<open>
  The kinds of value that meet in the conditions of \<open>__setup\<close>, with Python's
  truthiness and its \<open>or\<close>, which yields its left operand when that is truthy and its
  right operand otherwise.
\<close>

datatype py_val = PyStr string | PyBool bool | PyInt int

fun truthy :: "py_val \<Rightarrow> bool" where
  "truthy (PyStr s) = (s \<noteq> [])"
| "truthy (PyBool b) = b"
| "truthy (PyInt n) = (n \<noteq> 0)"

definition py_or :: "py_val \<Rightarrow> py_val \<Rightarrow> py_val" where
  "py_or a b = (if truthy a then a else b)"

text \<open>
  \<open>a & b\<close>: on two \<open>bool\<close>s their conjunction, again a \<open>bool\<close>; on a \<open>bool\<close> and an
  \<open>int\<close>, or two \<open>int\<close>s, the bitwise and of the integers (\<open>bool\<close> is a subclass of
  \<open>int\<close>, with \<open>True\<close> being 1); \<open>TypeError\<close> when an operand is a \<open>str\<close>.
\<close>

fun py_band :: "py_val \<Rightarrow> py_val \<Rightarrow> py_exc + py_val" where
  "py_band (PyBool a) (PyBool b) = Inr (PyBool (a \<and> b))"
| "py_band (PyBool a) (PyInt n) = Inr (PyInt (of_bool a AND n))"
| "py_band (PyInt m) (PyBool b) = Inr (PyInt (m AND of_bool b))"
| "py_band (PyInt m) (PyInt n) = Inr (PyInt (m AND n))"
| "py_band _ _ = Inl (TypeError ''unsupported operand type(s) for &'')"

text \<open>
  \<open>a == b\<close>: numbers compare by value, \<open>True\<close> being 1 and \<open>False\<close> 0; strings
  compare with strings; a string never equals a number.
\<close>

fun py_eq :: "py_val \<Rightarrow> py_val \<Rightarrow> bool" where
  "py_eq (PyStr s) (PyStr t) = (s = t)"
| "py_eq (PyBool a) (PyBool b) = (a = b)"
| "py_eq (PyBool a) (PyInt n) = (of_bool a = n)"
| "py_eq (PyInt m) (PyBool b) = (m = of_bool b)"
| "py_eq (PyInt m) (PyInt n) = (m = n)"
| "py_eq _ _ = False"

text \<open>\<open>sub in s\<close> on two \<open>str\<close>: \<open>sub\<close> occurs in \<open>s\<close> as a contiguous run.\<close>

definition starts_with :: "string \<Rightarrow> string \<Rightarrow> bool" where
  "starts_with sub s = (take (length sub) s = sub)"

fun str_in :: "string \<Rightarrow> string \<Rightarrow> bool" where
  "str_in sub [] = (sub = [])"
| "str_in sub (c # cs) = (starts_with sub (c # cs) \<or> str_in sub cs)"

section \<open>\<open>HiveAgent.__setup\<close>: tools, retriever and provider\<close>

text \<open>
  What is at \<open>files.BASE_DIR\<close> at the time of the call: nothing, a regular file, a
  directory with its entries, or something else (a socket, a device), each with its size
  in bytes. A directory also tells whether the process may list it: \<open>os.path.exists\<close>
  and \<open>os.path.isdir\<close> need no such permission, \<open>os.listdir\<close> raises
  \<open>PermissionError\<close> without it. Symbolic links are followed by all five functions, so
  they are one of the four. The five calls see the same state.
\<close>

datatype path_state =
    Absent
  | RegularFile nat
  | Directory nat "string list" bool
  | Special nat

fun path_exists :: "path_state \<Rightarrow> bool" where
  "path_exists Absent = False"
| "path_exists _ = True"

fun isfile :: "path_state \<Rightarrow> bool" where
  "isfile (RegularFile _) = True"
| "isfile _ = False"

fun isdir :: "path_state \<Rightarrow> bool" where
  "isdir (Directory _ _ _) = True"
| "isdir _ = False"

fun getsize :: "path_state \<Rightarrow> py_exc + nat" where
  "getsize (RegularFile n) = Inr n"
| "getsize (Directory n _ _) = Inr n"
| "getsize (Special n) = Inr n"
| "getsize Absent = Inl (OSError ''No such file or directory'')"

fun listdir :: "path_state \<Rightarrow> py_exc + string list" where
  "listdir (Directory _ es listable) =
     (if listable then Inr es else Inl (PermissionError ''Permission denied''))"
| "listdir Absent = Inl (OSError ''No such file or directory'')"
| "listdir _ = Inl (OSError ''Not a directory'')"

text \<open>
  Lines 90 to 98, the lambda \<open>is_base_dir_not_empty\<close>:
  \<open>exists(d) and (getsize(d) > 0 if isfile(d) else (bool(listdir(d)) if isdir(d) else False))\<close>.
\<close>

definition is_base_dir_not_empty :: "path_state \<Rightarrow> py_exc + bool" where
  "is_base_dir_not_empty d =
     (if \<not> path_exists d then Inr False
      else if isfile d then
        (case getsize d of Inl e \<Rightarrow> Inl e | Inr n \<Rightarrow> Inr (0 < n))
      else if isdir d then
        (case listdir d of Inl e \<Rightarrow> Inl e | Inr es \<Rightarrow> Inr (es \<noteq> []))
      else Inr False)"

text \<open>The callables handed to \<open>FunctionTool.from_defaults\<close>, and the tools made of them.\<close>

datatype func = get_db_schemas | text_2_sql | UserFunc string

datatype tool = FunctionTool func

definition tools_from_funcs :: "func list \<Rightarrow> tool list" where
  "tools_from_funcs funcs = map FunctionTool funcs"

text \<open>
  The four provider classes of \<open>hive_agent.llms\<close>. Their constructors are not part of
  this file; an agent is recorded as the class chosen and the three arguments it was
  given.
\<close>

datatype provider = OpenAILLM | ClaudeLLM | OllamaLLM | MistralLLM

record 'r llm_agent =
  llm :: provider
  agent_tools :: "tool list"
  agent_instruction :: string
  agent_tool_retriever :: "'r option"

text \<open>
  Lines 100 to 104. The condition \<open>is_base_dir_not_empty() == True & self.retrieve == True\<close>
  is a chained comparison around the bitwise \<open>&\<close>, which binds tighter than \<open>==\<close>:
  \<open>n == (True & retrieve) and (True & retrieve) == True\<close>, where \<open>n\<close> is what the
  lambda returned. The lambda is called first, whatever the flag, then the \<open>&\<close> is
  computed, then the comparisons are made. \<open>self.retrieve\<close> has no annotation; it is
  any of the values above. \<open>basic_retrieve\<close> of \<open>hive_agent.tools.agent_db\<close> is a
  parameter. The result is the pair \<open>(tools, tool_retriever)\<close> as the provider
  constructors receive it.
\<close>

definition retrieve_condition :: "bool \<Rightarrow> py_val \<Rightarrow> py_exc + bool" where
  "retrieve_condition n retrieve =
     (case py_band (PyBool True) retrieve of
        Inl e \<Rightarrow> Inl e
      | Inr m \<Rightarrow> Inr (py_eq (PyBool n) m \<and> py_eq m (PyBool True)))"

definition select_tools ::
  "(tool list \<Rightarrow> string list \<Rightarrow> 'r) \<Rightarrow> path_state \<Rightarrow> py_val \<Rightarrow> string list \<Rightarrow> tool list
     \<Rightarrow> py_exc + (tool list \<times> 'r option)" where
  "select_tools basic_retrieve base_dir retrieve required_exts tools =
     (case is_base_dir_not_empty base_dir of
        Inl e \<Rightarrow> Inl e
      | Inr n \<Rightarrow>
          (case retrieve_condition n retrieve of
             Inl e \<Rightarrow> Inl e
           | Inr attach \<Rightarrow>
               if attach
               then Inr ([], Some (basic_retrieve tools required_exts))
               else Inr (tools, None)))"

text \<open>
  Lines 107 to 116, the chain that picks the provider. The fourth condition is
  \<open>"mixtral" or ("mistral" in model)\<close>: \<open>in\<close> binds tighter than \<open>or\<close>. The branch taken is
  kept apart from the class it constructs, since the first and the last branch construct
  the same class.
\<close>

datatype branch = IfGpt | ElifClaude | ElifLlama | ElifMistral | Else

definition provider_branch :: "string \<Rightarrow> branch" where
  "provider_branch model =
     (if str_in ''gpt'' model then IfGpt
      else if str_in ''claude'' model then ElifClaude
      else if str_in ''llama'' model then ElifLlama
      else if truthy (py_or (PyStr ''mixtral'') (PyBool (str_in ''mistral'' model)))
        then ElifMistral
      else Else)"

fun branch_provider :: "branch \<Rightarrow> provider" where
  "branch_provider IfGpt = OpenAILLM"
| "branch_provider ElifClaude = ClaudeLLM"
| "branch_provider ElifLlama = OllamaLLM"
| "branch_provider ElifMistral = MistralLLM"
| "branch_provider Else = OpenAILLM"

text \<open>
  Lines 82 to 116 of \<open>__setup\<close>: the agent it stores in \<open>self.__agent\<close>. The model name
  is what \<open>config.get("model", "model", "gpt-3.5-turbo")\<close> returned.
\<close>

definition HiveAgent_setup ::
  "(tool list \<Rightarrow> string list \<Rightarrow> 'r) \<Rightarrow> path_state \<Rightarrow> string \<Rightarrow> func list \<Rightarrow> string \<Rightarrow> py_val
     \<Rightarrow> string list \<Rightarrow> py_exc + 'r llm_agent" where
  "HiveAgent_setup basic_retrieve base_dir model functions instruction retrieve required_exts =
     (let custom_tools = tools_from_funcs functions;
          system_tools = tools_from_funcs [get_db_schemas, text_2_sql];
          tools = custom_tools @ system_tools
      in case select_tools basic_retrieve base_dir retrieve required_exts tools of
           Inl e \<Rightarrow> Inl e
         | Inr (tools', tool_retriever) \<Rightarrow>
             Inr \<lparr> llm = branch_provider (provider_branch model),
                   agent_tools = tools',
                   agent_instruction = instruction,
                   agent_tool_retriever = tool_retriever \<rparr>)"

section \<open>The event loop, its tasks and the host object\<close>

text \<open>
  A task of the event loop is pending, or done with one of three results: it returned,
  it was cancelled, or it raised. Once done a task never changes again. A task is named
  by its position in the loop's list of tasks, which only grows.
\<close>

type_synonym tid = nat

datatype coroutine = ShutdownProcedures | OtherCoroutine string

datatype task_result = Completed | Cancelled | Failed py_exc

datatype task_status = Pending | Done task_result

record task =
  coro :: coroutine
  status :: task_status
  cancel_requested :: bool

text \<open>
  What the methods do to the outside, in the order they do it: the records handed to
  \<open>logging\<close> (level, the text of the format string, the values formatted into it), and
  the calls into asyncio, uvicorn and the resource handle.
\<close>

datatype level = DEBUG | INFO | ERROR

datatype log_arg = ArgInt int | ArgExc py_exc

datatype effect =
    Log level string "log_arg list"
  | CreateTask tid coroutine
  | CancelCalled tid
  | EventSet
  | ServeCalled
  | ServeExited "unit result"
  | CleanupCalled
  | CloseCalled

text \<open>
  A resource handle is known by what awaiting its \<open>close()\<close> ends with. The attribute
  \<open>db_session\<close> is never assigned in the class; \<open>None\<close> is the object without the
  attribute (\<open>hasattr\<close> is false).
\<close>

datatype session = Session (session_close: "unit result")

record hive =
  tasks :: "task list"
  loop_running :: bool
  shutdown_event :: bool
  db_session :: "session option"
  effects :: "effect list"

definition emit :: "effect \<Rightarrow> hive \<Rightarrow> hive" where
  "emit e h = h\<lparr>effects := effects h @ [e]\<rparr>"

text \<open>
  \<open>__init__\<close>: line 57 creates the event (an \<open>asyncio.Event\<close> starts unset), line 71 runs
  \<open>__setup\<close>, and an exception of \<open>__setup\<close> leaves no object. The tasks of the loop and
  whether it runs are those of the process at that time.
\<close>

definition HiveAgent_init ::
  "(tool list \<Rightarrow> string list \<Rightarrow> 'r) \<Rightarrow> path_state \<Rightarrow> string \<Rightarrow> func list \<Rightarrow> string \<Rightarrow> py_val
     \<Rightarrow> string list \<Rightarrow> task list \<Rightarrow> bool \<Rightarrow> py_exc + ('r llm_agent \<times> hive)" where
  "HiveAgent_init basic_retrieve base_dir model functions instruction retrieve required_exts
       loop_tasks running =
     (let self = \<lparr> tasks = loop_tasks, loop_running = running, shutdown_event = False,
                   db_session = None, effects = [] \<rparr>
      in case HiveAgent_setup basic_retrieve base_dir model functions instruction retrieve
                required_exts of
           Inl e \<Rightarrow> Inl e
         | Inr a \<Rightarrow> Inr (a, self))"

subsection \<open>asyncio\<close>

definition lookup_task :: "hive \<Rightarrow> tid \<Rightarrow> task option" where
  "lookup_task h t = (if t < length (tasks h) then Some (tasks h ! t) else None)"

definition is_pending :: "hive \<Rightarrow> tid \<Rightarrow> bool" where
  "is_pending h t = (case lookup_task h t of Some k \<Rightarrow> status k = Pending | None \<Rightarrow> False)"

definition is_done :: "hive \<Rightarrow> tid \<Rightarrow> bool" where
  "is_done h t = (case lookup_task h t of Some k \<Rightarrow> status k \<noteq> Pending | None \<Rightarrow> False)"

text \<open>
  \<open>asyncio.all_tasks()\<close>: the set of the tasks of the loop that are not done yet. In
  what order a loop over that set meets its elements is not for the program to say:
  \<open>order\<close> names the tasks met first, in that order, and the others follow. Every order
  of the set is had this way.
\<close>

definition set_order :: "tid list \<Rightarrow> nat \<Rightarrow> tid list" where
  "set_order order n =
     remdups (filter (\<lambda>t. t < n) order) @ filter (\<lambda>t. t \<notin> set order) [0 ..< n]"

definition all_tasks :: "tid list \<Rightarrow> hive \<Rightarrow> tid list" where
  "all_tasks order h = filter (is_pending h) (set_order order (length (tasks h)))"

text \<open>
  \<open>Task.cancel()\<close>: a request. On a done task it does nothing; on a pending one it
  arranges for \<open>CancelledError\<close> to be thrown into the task when the loop runs it next.
  What the task makes of that is the task's business. \<open>cancel_requested\<close> says that the
  request was made.
\<close>

definition request_cancel :: "tid \<Rightarrow> hive \<Rightarrow> hive" where
  "request_cancel t h =
     (if is_pending h t
      then h\<lparr>tasks := (tasks h)[t := (tasks h ! t)\<lparr>cancel_requested := True\<rparr>]\<rparr>
      else h)"

definition task_cancel :: "tid \<Rightarrow> hive \<Rightarrow> hive" where
  "task_cancel t h = request_cancel t (emit (CancelCalled t) h)"

text \<open>
  \<open>asyncio.create_task(coro)\<close>: a new pending task on the running loop, not run yet;
  \<open>RuntimeError\<close> when no loop is running in the calling thread.
\<close>

definition create_task :: "coroutine \<Rightarrow> hive \<Rightarrow> hive \<times> tid result" where
  "create_task c h =
     (if loop_running h
      then (let t = length (tasks h)
            in (emit (CreateTask t c)
                  (h\<lparr>tasks := tasks h @ [\<lparr>coro = c, status = Pending, cancel_requested = False\<rparr>]\<rparr>),
                Returns t))
      else (h, Raises (RuntimeError ''no running event loop'')))"

text \<open>
  What the loop does while a coroutine is suspended, seen from that coroutine:
  \<^item> another pending task becomes done with some result. When the result is
    \<open>KeyboardInterrupt\<close> or \<open>SystemExit\<close>, the loop stops with it, and nothing is run
    or resumed after that;
  \<^item> a new task appears;
  \<^item> some task calls \<open>cancel()\<close> on the task that runs the suspended coroutine. That
    task waits for the future of \<open>gather\<close>, so the request goes to that future, which
    passes it to its children;
  \<^item> the loop runs the task of the suspended coroutine again. It does so only once the
    future the task waits for is resolved, and it may run other tasks between the two.

  The task that runs the coroutine ends when the coroutine does, not by a step of the
  loop. \<open>own\<close> is that task, when the loop has it.
\<close>

datatype loop_event =
    TaskFinishes tid task_result
  | TaskSpawned coroutine
  | OwnTaskCancelled
  | OwnTaskWoken

fun stops_loop :: "task_result \<Rightarrow> bool" where
  "stops_loop (Failed e) = exits_interpreter e"
| "stops_loop _ = False"

fun loop_step :: "tid option \<Rightarrow> tid list \<Rightarrow> loop_event \<Rightarrow> hive \<Rightarrow> hive" where
  "loop_step own ts (TaskFinishes t r) h =
     (if Some t \<noteq> own \<and> is_pending h t
      then h\<lparr>tasks := (tasks h)[t := (tasks h ! t)\<lparr>status := Done r\<rparr>],
             loop_running := loop_running h \<and> \<not> stops_loop r\<rparr>
      else h)"
| "loop_step own ts (TaskSpawned c) h =
     h\<lparr>tasks := tasks h @ [\<lparr>coro = c, status = Pending, cancel_requested = False\<rparr>]\<rparr>"
| "loop_step own ts OwnTaskCancelled h =
     (case own of None \<Rightarrow> h | Some c \<Rightarrow> fold request_cancel (c # ts) h)"
| "loop_step own ts OwnTaskWoken h = h"

text \<open>
  \<open>asyncio.gather(*ts, return_exceptions=True)\<close>, looked at in a given state of the
  loop: the future is resolved once every child is done, and then a child's exception or
  cancellation is an entry of the result list like any other result.
\<close>

definition child_result :: "hive \<Rightarrow> tid \<Rightarrow> task_result option" where
  "child_result h t =
     (case lookup_task h t of
        None \<Rightarrow> None
      | Some k \<Rightarrow> (case status k of Pending \<Rightarrow> None | Done r \<Rightarrow> Some r))"

fun all_results :: "task_result option list \<Rightarrow> task_result list option" where
  "all_results [] = Some []"
| "all_results (None # rs) = None"
| "all_results (Some r # rs) = map_option ((#) r) (all_results rs)"

definition gather_results :: "tid list \<Rightarrow> hive \<Rightarrow> task_result list option" where
  "gather_results ts h = all_results (map (child_result h) ts)"

text \<open>
  What the coroutine is resumed with when the loop runs its task again: nothing yet while
  a child is pending; else \<open>CancelledError\<close> when the cancellation of its own task was
  requested, and the result list otherwise.
\<close>

definition own_cancel_requested :: "tid option \<Rightarrow> hive \<Rightarrow> bool" where
  "own_cancel_requested own h =
     (case own of
        None \<Rightarrow> False
      | Some c \<Rightarrow> (case lookup_task h c of None \<Rightarrow> False | Some k \<Rightarrow> cancel_requested k))"

definition resume :: "tid option \<Rightarrow> tid list \<Rightarrow> hive \<Rightarrow> task_result list result option" where
  "resume own ts h =
     (case gather_results ts h of
        None \<Rightarrow> None
      | Some xs \<Rightarrow>
          Some (if own_cancel_requested own h then Raises CancelledError else Returns xs))"

text \<open>
  The coroutine suspended on the future of \<open>gather\<close>, under a schedule, the list of what the loop
  does from then on. \<open>None\<close> is the coroutine that was not resumed: the schedule ended,
  or the loop stopped.
\<close>

fun wait_for_gather ::
  "tid option \<Rightarrow> tid list \<Rightarrow> hive \<Rightarrow> loop_event list
     \<Rightarrow> hive \<times> task_result list result option" where
  "wait_for_gather own ts h [] = (h, None)"
| "wait_for_gather own ts h (ev # evs) =
     (if \<not> loop_running h then (h, None)
      else if ev = OwnTaskWoken
      then (case resume own ts h of
              Some r \<Rightarrow> (h, Some r)
            | None \<Rightarrow> wait_for_gather own ts h evs)
      else wait_for_gather own ts (loop_step own ts ev h) evs)"



text \<open>
  \<open>await asyncio.gather(...)\<close>: \<open>await\<close> on a future that is resolved already, as
  that of \<open>gather()\<close> without children, goes on at once with its result; on any other
  future it suspends the coroutine.
\<close>

definition await_gather ::
  "tid option \<Rightarrow> tid list \<Rightarrow> hive \<Rightarrow> loop_event list
     \<Rightarrow> hive \<times> task_result list result option" where
  "await_gather own ts h schedule =
     (case gather_results ts h of
        Some xs \<Rightarrow> (h, Some (Returns xs))
      | None \<Rightarrow> wait_for_gather own ts h schedule)"

subsection \<open>The coordinator\<close>

text \<open>How far a coroutine got: still suspended at an \<open>await\<close>, or ended.\<close>

datatype 'a coro_state = Suspended | Ended "'a result"

text \<open>
  When the coroutine is all that its task runs, as in the task the signal handler
  creates, the task is done when the coroutine ends: completed when it returns,
  cancelled when \<open>CancelledError\<close> leaves it, failed with any other exception.
\<close>

fun raised :: "py_exc \<Rightarrow> task_result" where
  "raised CancelledError = Cancelled"
| "raised e = Failed e"

definition end_own_task :: "tid option \<Rightarrow> task_result \<Rightarrow> hive \<Rightarrow> hive" where
  "end_own_task own r h =
     (case own of
        None \<Rightarrow> h
      | Some c \<Rightarrow>
          (case lookup_task h c of
             None \<Rightarrow> h
           | Some k \<Rightarrow>
               if coro k = ShutdownProcedures
               then h\<lparr>tasks := (tasks h)[c := k\<lparr>status := Done r\<rparr>]\<rparr>
               else h))"

text \<open>
  A task whose cancellation is requested before the loop has run it for the first time
  gets \<open>CancelledError\<close> thrown into its coroutine at that first step: no statement
  of the coroutine is run.
\<close>

definition cancelled_before_start :: "tid \<Rightarrow> hive \<Rightarrow> bool" where
  "cancelled_before_start cur h =
     (case lookup_task h cur of
        None \<Rightarrow> False
      | Some k \<Rightarrow> status k = Pending \<and> coro k = ShutdownProcedures \<and> cancel_requested k)"

text \<open>
  Lines 195 to 202. \<open>cur\<close> is \<open>asyncio.current_task()\<close>, the task that runs the
  coroutine. \<open>all_tasks()\<close> raises \<open>RuntimeError\<close> where no loop is running. Nothing
  is awaited between the enumeration and the calls of \<open>cancel\<close>.
\<close>

definition enumerate_tasks :: "tid list \<Rightarrow> tid \<Rightarrow> hive \<Rightarrow> tid list" where
  "enumerate_tasks order cur h = filter (\<lambda>t. t \<noteq> cur) (all_tasks order h)"

definition shutdown_procedures ::
  "tid list \<Rightarrow> tid \<Rightarrow> loop_event list \<Rightarrow> hive \<Rightarrow> hive \<times> unit coro_state" where
  "shutdown_procedures order cur schedule h =
     (if \<not> loop_running h
      then (h, Ended (Raises (RuntimeError ''no running event loop'')))
      else if cancelled_before_start cur h
      then (end_own_task (Some cur) Cancelled h, Ended (Raises CancelledError))
      else
        (let own = (if is_pending h cur then Some cur else None);
             ts = enumerate_tasks order cur h;
             h1 = fold task_cancel ts h
         in case await_gather own ts h1 schedule of
              (h2, None) \<Rightarrow> (h2, Suspended)
            | (h2, Some (Raises e)) \<Rightarrow> (end_own_task own (raised e) h2, Ended (Raises e))
            | (h2, Some (Returns _)) \<Rightarrow>
                (end_own_task own Completed
                   (emit (Log INFO ''all tasks have been cancelled or completed'' [])
                      (emit EventSet (h2\<lparr>shutdown_event := True\<rparr>))),
                 Ended (Returns ()))))"

text \<open>Lines 191 to 193. The handler is a plain function: it awaits nothing.\<close>

definition signal_handler :: "int \<Rightarrow> hive \<Rightarrow> hive \<times> unit result" where
  "signal_handler signum h =
     (let h1 = emit (Log INFO ''signal {signum} received, initiating graceful shutdown...''
                       [ArgInt signum]) h
      in case create_task ShutdownProcedures h1 of
           (h2, Returns _) \<Rightarrow> (h2, Returns ())
         | (h2, Raises e) \<Rightarrow> (h2, Raises e))"

text \<open>
  Lines 204 to 212: the \<open>try\<close> body, the handler for \<open>Exception\<close>, and the \<open>finally\<close>
  clause, after which an exception that was not handled goes on.
\<close>

definition cleanup :: "hive \<Rightarrow> hive \<times> unit result" where
  "cleanup h =
     (let h0 = emit CleanupCalled h;
          (h1, body) =
            (case db_session h0 of
               None \<Rightarrow> (h0, Returns ())
             | Some s \<Rightarrow>
                 (case session_close s of
                    Returns _ \<Rightarrow>
                      (emit (Log DEBUG ''database connection closed'' []) (emit CloseCalled h0),
                       Returns ())
                  | Raises e \<Rightarrow> (emit CloseCalled h0, Raises e)));
          (h2, handled) =
            (case body of
               Returns _ \<Rightarrow> (h1, Returns ())
             | Raises e \<Rightarrow>
                 if is_Exception e
                 then (emit (Log ERROR ''error during cleanup: {e}'' [ArgExc e]) h1, Returns ())
                 else (h1, Raises e))
      in (emit (Log INFO ''cleanup process completed'' []) h2, handled))"

text \<open>
  Lines 161 to 173. \<open>serve\<close> is what \<open>await server.serve()\<close> ends with. An exception
  raised in the \<open>finally\<close> clause replaces the one that was on its way.
\<close>

definition run_server :: "unit result \<Rightarrow> hive \<Rightarrow> hive \<times> unit result" where
  "run_server serve h =
     (let h1 = emit (ServeExited serve) (emit ServeCalled h);
          (h2, handled) =
            (case serve of
               Returns _ \<Rightarrow> (h1, Returns ())
             | Raises e \<Rightarrow>
                 if is_Exception e
                 then (emit (Log ERROR ''unexpected error while running the server: {e}''
                               [ArgExc e]) h1,
                       Returns ())
                 else (h1, Raises e));
          (h3, c) = cleanup h2
      in (h3, case c of Raises e' \<Rightarrow> Raises e' | Returns _ \<Rightarrow> handled))"

text \<open>The operations of the coordinator, and the state each leaves behind.\<close>

datatype operation =
    OpSignalHandler int
  | OpShutdownProcedures "tid list" tid "loop_event list"
  | OpCleanup
  | OpRunServer "unit result"

fun exec :: "operation \<Rightarrow> hive \<Rightarrow> hive" where
  "exec (OpSignalHandler signum) h = fst (signal_handler signum h)"
| "exec (OpShutdownProcedures order cur schedule) h =
     fst (shutdown_procedures order cur schedule h)"
| "exec OpCleanup h = fst (cleanup h)"
| "exec (OpRunServer serve) h = fst (run_server serve h)"

text \<open>The effects a method added to those already there.\<close>

definition emitted :: "hive \<Rightarrow> hive \<Rightarrow> effect list" where
  "emitted h h' = drop (length (effects h)) (effects h')"

subsection \<open>Scenarios\<close>

text \<open>
  Three tasks that do nothing until cancelled, and the task that runs
  \<open>shutdown_procedures\<close>, as the handler created it; a loop whose only task is that one;
  and the host object between its construction and \<open>run()\<close>, when no loop is running.
\<close>

definition three_dummy_tasks :: hive where
  "three_dummy_tasks =
     \<lparr> tasks = [\<lparr>coro = OtherCoroutine ''dummy 0'', status = Pending, cancel_requested = False\<rparr>,
                \<lparr>coro = OtherCoroutine ''dummy 1'', status = Pending, cancel_requested = False\<rparr>,
                \<lparr>coro = OtherCoroutine ''dummy 2'', status = Pending, cancel_requested = False\<rparr>,
                \<lparr>coro = ShutdownProcedures, status = Pending, cancel_requested = False\<rparr>],
       loop_running = True, shutdown_event = False, db_session = None, effects = [] \<rparr>"

definition only_shutdown_task :: hive where
  "only_shutdown_task =
     \<lparr> tasks = [\<lparr>coro = ShutdownProcedures, status = Pending, cancel_requested = False\<rparr>],
       loop_running = True, shutdown_event = False, db_session = None, effects = [] \<rparr>"

definition before_run :: hive where
  "before_run =
     \<lparr> tasks = [], loop_running = False, shutdown_event = False, db_session = None,
       effects = [] \<rparr>"

text \<open>
  The condition in the words of the specification, to compare with the lambda of lines 90
  to 98: something is at \<open>files.BASE_DIR\<close> and it has content, a directory at least one
  entry, a regular file at least one byte. What is neither a directory nor a regular file
  has no content to list or to measure.
\<close>

fun exists_and_non_empty :: "path_state \<Rightarrow> bool" where
  "exists_and_non_empty Absent = False"
| "exists_and_non_empty (RegularFile n) = (0 < n)"
| "exists_and_non_empty (Directory _ es _) = (es \<noteq> [])"
| "exists_and_non_empty (Special _) = False"

text \<open>A directory that is there and that the process may not list.\<close>

fun cannot_be_listed :: "path_state \<Rightarrow> bool" where
  "cannot_be_listed (Directory _ _ listable) = (\<not> listable)"
| "cannot_be_listed _ = False"

section \<open>Properties of \<open>__setup\<close>\<close>

lemma starts_with_iff: "starts_with sub s \<longleftrightarrow> (\<exists>post. s = sub @ post)"
  unfolding starts_with_def
  by (metis append_eq_conv_conj append_take_drop_id)

lemma str_in_iff: "str_in sub s \<longleftrightarrow> (\<exists>pre post. s = pre @ sub @ post)"
proof (induction s)
  case Nil
  then show ?case by auto
next
  case (Cons c cs)
  show ?case
  proof
    assume "str_in sub (c # cs)"
    then consider "starts_with sub (c # cs)" | "str_in sub cs" by auto
    then show "\<exists>pre post. c # cs = pre @ sub @ post"
    proof cases
      case 1
      then obtain post where "c # cs = sub @ post" using starts_with_iff by blast
      then have "c # cs = [] @ sub @ post" by simp
      then show ?thesis by blast
    next
      case 2
      then obtain pre post where "cs = pre @ sub @ post" using Cons.IH by blast
      then have "c # cs = (c # pre) @ sub @ post" by simp
      then show ?thesis by blast
    qed
  next
    assume "\<exists>pre post. c # cs = pre @ sub @ post"
    then obtain pre post where eq: "c # cs = pre @ sub @ post" by blast
    show "str_in sub (c # cs)"
    proof (cases pre)
      case Nil
      with eq have "starts_with sub (c # cs)" using starts_with_iff by auto
      then show ?thesis by simp
    next
      case (Cons p ps)
      with eq have "cs = ps @ sub @ post" by simp
      then have "str_in sub cs" using Cons.IH by blast
      then show ?thesis by simp
    qed
  qed
qed

lemma mixtral_condition: "truthy (py_or (PyStr ''mixtral'') b)"
  by (simp add: py_or_def)

lemma provider_branch_not_else: "provider_branch model \<noteq> Else"
  by (simp add: provider_branch_def mixtral_condition)

lemma is_base_dir_not_empty_eq:
  "is_base_dir_not_empty d =
     (if cannot_be_listed d then Inl (PermissionError ''Permission denied'')
      else Inr (exists_and_non_empty d))"
  by (cases d) (simp_all add: is_base_dir_not_empty_def)

lemma retrieve_condition_bool: "retrieve_condition n (PyBool r) = Inr (r \<and> n)"
  by (auto simp: retrieve_condition_def)

lemma retrieve_condition_int: "retrieve_condition n (PyInt k) = Inr (odd k \<and> n)"
  by (auto simp: retrieve_condition_def one_and_eq odd_iff_mod_2_eq_one)

lemma retrieve_condition_str:
  "retrieve_condition n (PyStr s) = Inl (TypeError ''unsupported operand type(s) for &'')"
  by (simp add: retrieve_condition_def)

lemma setup_with_integer_flag:
  "HiveAgent_setup Pair (Directory 4096 [''notes.md''] True) ''gpt-4'' [] [] (PyInt 2) [] =
     Inr \<lparr> llm = OpenAILLM,
           agent_tools = [FunctionTool get_db_schemas, FunctionTool text_2_sql],
           agent_instruction = [], agent_tool_retriever = None \<rparr>"
  "HiveAgent_setup Pair (Directory 4096 [''notes.md''] True) ''gpt-4'' [] [] (PyInt 3) [] =
     Inr \<lparr> llm = OpenAILLM, agent_tools = [], agent_instruction = [],
           agent_tool_retriever =
             Some ([FunctionTool get_db_schemas, FunctionTool text_2_sql], []) \<rparr>"
  by (simp_all add: HiveAgent_setup_def select_tools_def is_base_dir_not_empty_eq
      retrieve_condition_int tools_from_funcs_def provider_branch_def starts_with_def Let_def)

text \<open>
  C10. A model name that contains none of \<open>gpt\<close>, \<open>claude\<close> and \<open>llama\<close> selects the
  Mistral provider, whether or not it contains \<open>mixtral\<close> or \<open>mistral\<close>; and no model
  name at all reaches the final \<open>else\<close> branch.
\<close>

theorem provider_selection_falls_to_mistral:
  "(\<not> str_in ''gpt'' model \<and> \<not> str_in ''claude'' model \<and> \<not> str_in ''llama'' model \<longrightarrow>
      provider_branch model = ElifMistral \<and> branch_provider (provider_branch model) = MistralLLM)
   \<and> provider_branch model \<noteq> Else"
  by (simp add: provider_branch_def mixtral_condition)

theorem provider_selection_falls_to_mistral_witness:
  "\<not> str_in ''gpt'' ''command-r'' \<and> \<not> str_in ''claude'' ''command-r''
   \<and> \<not> str_in ''llama'' ''command-r''
   \<and> \<not> str_in ''mixtral'' ''command-r'' \<and> \<not> str_in ''mistral'' ''command-r''
   \<and> provider_branch ''command-r'' = ElifMistral
   \<and> branch_provider (provider_branch ''command-r'') = MistralLLM"
  using provider_selection_falls_to_mistral [of "''command-r''"] by (simp add: starts_with_def)

text \<open>
  C4, as the code has it, for a boolean retrieve flag. When \<open>files.BASE_DIR\<close> is a
  directory that the process may not list, \<open>__setup\<close> raises \<open>PermissionError\<close>,
  whatever the flag, and makes no agent. In every other case it hands the provider an
  empty tool list and the retriever built from the custom tools followed by the system
  tools exactly when the flag is true and \<open>files.BASE_DIR\<close> exists and is non-empty (a
  directory with an entry, or a regular file with a byte), and that concatenated list and
  no retriever otherwise.
\<close>

theorem setup_attaches_retriever_iff:
  "HiveAgent_setup basic_retrieve base_dir model functions instruction (PyBool retrieve)
       required_exts =
     (if cannot_be_listed base_dir then Inl (PermissionError ''Permission denied'')
      else Inr (let tools = tools_from_funcs functions @
                              tools_from_funcs [get_db_schemas, text_2_sql];
                    attach = (retrieve \<and> exists_and_non_empty base_dir)
                in \<lparr> llm = branch_provider (provider_branch model),
                     agent_tools = (if attach then [] else tools),
                     agent_instruction = instruction,
                     agent_tool_retriever =
                       (if attach then Some (basic_retrieve tools required_exts) else None) \<rparr>))"
  by (simp add: HiveAgent_setup_def select_tools_def is_base_dir_not_empty_eq
      retrieve_condition_bool Let_def)

theorem setup_attaches_retriever_iff_witness:
  "HiveAgent_setup Pair (Directory 4096 [''notes.md''] True) ''gpt-4'' [UserFunc ''add'']
       ''be brief'' (PyBool True) [''.md''] =
     Inr \<lparr> llm = OpenAILLM, agent_tools = [], agent_instruction = ''be brief'',
           agent_tool_retriever =
             Some ([FunctionTool (UserFunc ''add''), FunctionTool get_db_schemas,
                    FunctionTool text_2_sql], [''.md'']) \<rparr>
   \<and> HiveAgent_setup Pair (Directory 4096 [] True) ''gpt-4'' [UserFunc ''add'']
       ''be brief'' (PyBool True) [''.md''] =
     Inr \<lparr> llm = OpenAILLM,
           agent_tools = [FunctionTool (UserFunc ''add''), FunctionTool get_db_schemas,
                          FunctionTool text_2_sql],
           agent_instruction = ''be brief'', agent_tool_retriever = None \<rparr>
   \<and> HiveAgent_setup Pair (RegularFile 12) ''gpt-4'' [UserFunc ''add'']
       ''be brief'' (PyBool True) [''.md''] =
     Inr \<lparr> llm = OpenAILLM, agent_tools = [], agent_instruction = ''be brief'',
           agent_tool_retriever =
             Some ([FunctionTool (UserFunc ''add''), FunctionTool get_db_schemas,
                    FunctionTool text_2_sql], [''.md'']) \<rparr>"
  using setup_attaches_retriever_iff [of Pair "Directory 4096 [''notes.md''] True" "''gpt-4''"
          "[UserFunc ''add'']" "''be brief''" True "[''.md'']"]
        setup_attaches_retriever_iff [of Pair "Directory 4096 [] True" "''gpt-4''"
          "[UserFunc ''add'']" "''be brief''" True "[''.md'']"]
        setup_attaches_retriever_iff [of Pair "RegularFile 12" "''gpt-4''"
          "[UserFunc ''add'']" "''be brief''" True "[''.md'']"]
  by (simp add: tools_from_funcs_def provider_branch_def starts_with_def)

text \<open>
  C4, as the claim has it, fails for a base directory that exists and cannot be listed:
  the lambda is called before the flag is looked at, \<open>os.listdir\<close> raises, and no agent
  is made, with the flag false as with the flag true.
\<close>

theorem setup_fails_on_unlistable_directory:
  "HiveAgent_setup Pair (Directory 4096 [''notes.md''] False) ''gpt-4'' [UserFunc ''add'']
       ''be brief'' (PyBool False) [''.md''] = Inl (PermissionError ''Permission denied'')"
  by (simp add: HiveAgent_setup_def select_tools_def is_base_dir_not_empty_def Let_def)

section \<open>Tasks, \<open>gather\<close> and the schedule\<close>

subsection \<open>Looking at tasks\<close>

lemma is_pending_iff:
  "is_pending h t \<longleftrightarrow> t < length (tasks h) \<and> status (tasks h ! t) = Pending"
  by (simp add: is_pending_def lookup_task_def)

lemma is_done_iff:
  "is_done h t \<longleftrightarrow> t < length (tasks h) \<and> status (tasks h ! t) \<noteq> Pending"
  by (simp add: is_done_def lookup_task_def)

lemma is_done_not_pending: "is_done h t \<Longrightarrow> \<not> is_pending h t"
  by (simp add: is_done_iff is_pending_iff)

lemma is_pending_emit [simp]: "is_pending (emit e h) t = is_pending h t"
  by (simp add: is_pending_iff emit_def)

lemma is_done_emit [simp]: "is_done (emit e h) t = is_done h t"
  by (simp add: is_done_iff emit_def)

lemma is_done_event [simp]: "is_done (h\<lparr>shutdown_event := b\<rparr>) t = is_done h t"
  by (simp add: is_done_iff)

lemma emit_fields [simp]:
  "tasks (emit e h) = tasks h"
  "shutdown_event (emit e h) = shutdown_event h"
  "db_session (emit e h) = db_session h"
  "loop_running (emit e h) = loop_running h"
  "effects (emit e h) = effects h @ [e]"
  by (simp_all add: emit_def)

subsection \<open>Requests for cancellation\<close>

lemma request_cancel_fields [simp]:
  "shutdown_event (request_cancel t h) = shutdown_event h"
  "db_session (request_cancel t h) = db_session h"
  "loop_running (request_cancel t h) = loop_running h"
  "effects (request_cancel t h) = effects h"
  "length (tasks (request_cancel t h)) = length (tasks h)"
  by (simp_all add: request_cancel_def)

lemma request_cancel_status [simp]:
  "status (tasks (request_cancel t h) ! u) = status (tasks h ! u)"
  by (cases "u = t") (auto simp: request_cancel_def is_pending_iff)

lemma request_cancel_coro [simp]:
  "coro (tasks (request_cancel t h) ! u) = coro (tasks h ! u)"
  by (cases "u = t") (auto simp: request_cancel_def is_pending_iff)

lemma request_cancel_requested:
  "cancel_requested (tasks (request_cancel t h) ! u) =
     (if u = t \<and> is_pending h t then True else cancel_requested (tasks h ! u))"
  by (auto simp: request_cancel_def is_pending_iff)

lemma is_pending_request_cancel [simp]: "is_pending (request_cancel t h) u = is_pending h u"
  by (simp add: is_pending_iff)

lemma is_done_request_cancel [simp]: "is_done (request_cancel t h) u = is_done h u"
  by (simp add: is_done_iff)

lemma fold_request_cancel_fields [simp]:
  "shutdown_event (fold request_cancel ts h) = shutdown_event h"
  "db_session (fold request_cancel ts h) = db_session h"
  "loop_running (fold request_cancel ts h) = loop_running h"
  "effects (fold request_cancel ts h) = effects h"
  "length (tasks (fold request_cancel ts h)) = length (tasks h)"
  by (induction ts arbitrary: h; simp)+

lemma is_pending_fold_request_cancel [simp]:
  "is_pending (fold request_cancel ts h) u = is_pending h u"
  by (induction ts arbitrary: h) simp_all

lemma is_done_fold_request_cancel [simp]:
  "is_done (fold request_cancel ts h) u = is_done h u"
  by (induction ts arbitrary: h) simp_all

lemma fold_request_cancel_requested:
  "cancel_requested (tasks (fold request_cancel ts h) ! u) =
     (if u \<in> set ts \<and> is_pending h u then True else cancel_requested (tasks h ! u))"
  by (induction ts arbitrary: h) (auto simp: request_cancel_requested)

lemma task_cancel_fields [simp]:
  "shutdown_event (task_cancel t h) = shutdown_event h"
  "db_session (task_cancel t h) = db_session h"
  "loop_running (task_cancel t h) = loop_running h"
  "effects (task_cancel t h) = effects h @ [CancelCalled t]"
  "length (tasks (task_cancel t h)) = length (tasks h)"
  by (simp_all add: task_cancel_def)

lemma task_cancel_requested:
  "cancel_requested (tasks (task_cancel t h) ! u) =
     (if u = t \<and> is_pending h t then True else cancel_requested (tasks h ! u))"
  by (simp add: task_cancel_def request_cancel_requested)

lemma is_pending_task_cancel [simp]: "is_pending (task_cancel t h) u = is_pending h u"
  by (simp add: task_cancel_def)

lemma is_done_task_cancel [simp]: "is_done (task_cancel t h) u = is_done h u"
  by (simp add: task_cancel_def)

lemma fold_task_cancel_fields [simp]:
  "shutdown_event (fold task_cancel ts h) = shutdown_event h"
  "db_session (fold task_cancel ts h) = db_session h"
  "loop_running (fold task_cancel ts h) = loop_running h"
  "effects (fold task_cancel ts h) = effects h @ map CancelCalled ts"
  "length (tasks (fold task_cancel ts h)) = length (tasks h)"
  by (induction ts arbitrary: h; simp)+

lemma is_pending_fold_task_cancel [simp]:
  "is_pending (fold task_cancel ts h) u = is_pending h u"
  by (induction ts arbitrary: h) simp_all

lemma is_done_fold_task_cancel [simp]:
  "is_done (fold task_cancel ts h) u = is_done h u"
  by (induction ts arbitrary: h) simp_all

lemma fold_task_cancel_requested:
  "cancel_requested (tasks (fold task_cancel ts h) ! u) =
     (if u \<in> set ts \<and> is_pending h u then True else cancel_requested (tasks h ! u))"
  by (induction ts arbitrary: h) (auto simp: task_cancel_requested)

subsection \<open>Enumeration\<close>

lemma set_set_order: "set (set_order order n) = {t. t < n}"
  by (auto simp: set_order_def)

lemma distinct_set_order: "distinct (set_order order n)"
  by (auto simp: set_order_def)

lemma set_all_tasks: "set (all_tasks order h) = {t. is_pending h t}"
  by (auto simp: all_tasks_def set_set_order is_pending_iff)

lemma set_enumerate_tasks:
  "set (enumerate_tasks order cur h) =
     {t. t < length (tasks h) \<and> status (tasks h ! t) = Pending \<and> t \<noteq> cur}"
  by (auto simp: enumerate_tasks_def set_all_tasks is_pending_iff)

lemma distinct_enumerate_tasks: "distinct (enumerate_tasks order cur h)"
  by (simp add: enumerate_tasks_def all_tasks_def distinct_set_order)

text \<open>Every order of the set is the order of some run.\<close>

lemma enumerate_tasks_any_order:
  assumes "distinct p"
    and "set p = {t. t < length (tasks h) \<and> status (tasks h ! t) = Pending \<and> t \<noteq> cur}"
  shows "enumerate_tasks p cur h = p"
proof -
  have keep: "\<And>t. t \<in> set p \<Longrightarrow> t < length (tasks h) \<and> is_pending h t \<and> t \<noteq> cur"
    using assms(2) by (auto simp: is_pending_iff)
  have first: "filter (\<lambda>t. t \<noteq> cur) (filter (is_pending h)
                 (remdups (filter (\<lambda>t. t < length (tasks h)) p))) = p"
  proof -
    have a: "filter (\<lambda>t. t < length (tasks h)) p = p" using keep by (simp add: filter_id_conv)
    have b: "remdups p = p" using assms(1) by (rule distinct_remdups_id)
    have c: "filter (is_pending h) p = p" using keep by (simp add: filter_id_conv)
    have d: "filter (\<lambda>t. t \<noteq> cur) p = p" using keep by (simp add: filter_id_conv)
    show ?thesis by (simp only: a b c d)
  qed
  have rest: "filter (\<lambda>t. t \<noteq> cur) (filter (is_pending h)
                (filter (\<lambda>t. t \<notin> set p) [0 ..< length (tasks h)])) = []"
    using assms(2) by (auto simp: filter_empty_conv is_pending_iff)
  show ?thesis
    unfolding enumerate_tasks_def all_tasks_def set_order_def filter_append
    by (simp only: first rest append_Nil2)
qed

subsection \<open>The future of \<open>gather\<close>\<close>

lemma child_result_None_iff: "child_result h t = None \<longleftrightarrow> \<not> is_done h t"
  by (auto simp: child_result_def is_done_def split: option.splits task_status.splits)

lemma all_results_None_iff: "all_results rs = None \<longleftrightarrow> None \<in> set rs"
  by (induction rs rule: all_results.induct) auto

lemma gather_results_None_iff:
  "gather_results ts h = None \<longleftrightarrow> (\<exists>t\<in>set ts. \<not> is_done h t)"
proof -
  have "gather_results ts h = None \<longleftrightarrow> (\<exists>t\<in>set ts. child_result h t = None)"
    unfolding gather_results_def all_results_None_iff
    by (metis (mono_tags, lifting) image_iff list.set_map)
  then show ?thesis by (simp add: child_result_None_iff)
qed

lemma gather_results_Some_iff:
  "(\<exists>xs. gather_results ts h = Some xs) \<longleftrightarrow> (\<forall>t\<in>set ts. is_done h t)"
  using gather_results_None_iff [of ts h] by auto

lemma resume_None_iff: "resume own ts h = None \<longleftrightarrow> (\<exists>t\<in>set ts. \<not> is_done h t)"
proof -
  have "resume own ts h = None \<longleftrightarrow> gather_results ts h = None"
    by (simp add: resume_def split: option.splits)
  then show ?thesis by (simp add: gather_results_None_iff)
qed

lemma resume_Returns:
  "resume own ts h = Some (Returns xs) \<Longrightarrow>
     (\<forall>t\<in>set ts. is_done h t) \<and> \<not> own_cancel_requested own h"
  using gather_results_Some_iff [of ts h]
  by (auto simp: resume_def split: option.splits if_splits)

lemma resume_Raises:
  "resume own ts h = Some (Raises e) \<Longrightarrow>
     (\<forall>t\<in>set ts. is_done h t) \<and> own_cancel_requested own h \<and> e = CancelledError"
  using gather_results_Some_iff [of ts h]
  by (auto simp: resume_def split: option.splits if_splits)

subsection \<open>Steps of the loop\<close>

lemma loop_step_fields [simp]:
  "shutdown_event (loop_step own ts ev h) = shutdown_event h"
  "db_session (loop_step own ts ev h) = db_session h"
  "effects (loop_step own ts ev h) = effects h"
  by (cases ev; simp split: option.splits)+

lemma loop_step_length: "length (tasks h) \<le> length (tasks (loop_step own ts ev h))"
  by (cases ev) (simp_all split: option.splits)

lemma fold_request_cancel_status [simp]:
  "status (tasks (fold request_cancel ts h) ! u) = status (tasks h ! u)"
  by (induction ts arbitrary: h) simp_all

lemma loop_step_done: "is_done h t \<Longrightarrow> is_done (loop_step own ts ev h) t"
proof (cases ev)
  case (TaskFinishes u r)
  assume "is_done h t"
  with TaskFinishes show ?thesis
    by (cases "u = t") (auto simp: is_done_iff is_pending_iff)
next
  case (TaskSpawned c)
  assume "is_done h t"
  with TaskSpawned show ?thesis by (auto simp: is_done_iff nth_append)
next
  case OwnTaskCancelled
  assume "is_done h t"
  with OwnTaskCancelled show ?thesis by (cases own) simp_all
next
  case OwnTaskWoken
  assume "is_done h t"
  with OwnTaskWoken show ?thesis by simp
qed


lemma loop_step_requested:
  assumes "t < length (tasks h)" and "cancel_requested (tasks h ! t)"
  shows "cancel_requested (tasks (loop_step own ts ev h) ! t)"
proof (cases ev)
  case (TaskFinishes u r)
  with assms show ?thesis by (cases "u = t") (auto simp: is_pending_iff)
next
  case (TaskSpawned c)
  with assms show ?thesis by (auto simp: nth_append)
next
  case OwnTaskCancelled
  with assms show ?thesis
    by (cases own) (simp_all add: fold_request_cancel_requested request_cancel_requested)
next
  case OwnTaskWoken
  with assms show ?thesis by simp
qed

lemma loop_step_later:
  assumes "\<forall>t\<in>set ts. t < n" and "\<forall>c. own = Some c \<longrightarrow> c < n"
    and "n \<le> u" and "u < length (tasks (loop_step own ts ev h))"
    and "u < length (tasks h) \<longrightarrow> \<not> cancel_requested (tasks h ! u)"
  shows "\<not> cancel_requested (tasks (loop_step own ts ev h) ! u)"
proof (cases ev)
  case (TaskFinishes t r)
  with assms show ?thesis by (cases "t = u") (auto simp: is_pending_iff)
next
  case (TaskSpawned c)
  with assms show ?thesis by (auto simp: nth_append)
next
  case OwnTaskCancelled
  show ?thesis
  proof (cases own)
    case None
    with OwnTaskCancelled assms show ?thesis by simp
  next
    case (Some c)
    with assms have "u \<notin> set (c # ts)" by auto
    with OwnTaskCancelled Some assms show ?thesis
      using fold_request_cancel_requested [of "c # ts" h u] by simp
  qed
next
  case OwnTaskWoken
  with assms show ?thesis by simp
qed



subsection \<open>Awaiting under a schedule\<close>

lemma wait_for_gather_frame:
  "wait_for_gather own ts h evs = (h', r) \<Longrightarrow>
     shutdown_event h' = shutdown_event h \<and> db_session h' = db_session h
     \<and> effects h' = effects h \<and> length (tasks h) \<le> length (tasks h')"
proof (induction evs arbitrary: h)
  case Nil
  then show ?case by simp
next
  case (Cons ev evs)
  show ?case
  proof (cases "\<not> loop_running h \<or> (ev = OwnTaskWoken \<and> resume own ts h \<noteq> None)")
    case True
    with Cons.prems show ?thesis by (auto split: if_splits option.splits)
  next
    case False
    then have "wait_for_gather own ts (loop_step own ts ev h) evs = (h', r)"
      using Cons.prems by (auto split: if_splits option.splits)
    from Cons.IH [OF this] loop_step_length [of h own ts ev] show ?thesis by simp
  qed
qed

lemma wait_for_gather_resumed:
  "wait_for_gather own ts h evs = (h', Some r) \<Longrightarrow> resume own ts h' = Some r \<and> loop_running h'"
proof (induction evs arbitrary: h)
  case Nil
  then show ?case by simp
next
  case (Cons ev evs)
  show ?case
  proof (cases "\<not> loop_running h \<or> (ev = OwnTaskWoken \<and> resume own ts h \<noteq> None)")
    case True
    with Cons.prems show ?thesis by (auto split: if_splits option.splits)
  next
    case False
    then have "wait_for_gather own ts (loop_step own ts ev h) evs = (h', Some r)"
      using Cons.prems by (auto split: if_splits option.splits)
    from Cons.IH [OF this] show ?thesis .
  qed
qed

lemma wait_for_gather_done:
  "wait_for_gather own ts h evs = (h', r) \<Longrightarrow> is_done h t \<Longrightarrow> is_done h' t"
proof (induction evs arbitrary: h)
  case Nil
  then show ?case by simp
next
  case (Cons ev evs)
  show ?case
  proof (cases "\<not> loop_running h \<or> (ev = OwnTaskWoken \<and> resume own ts h \<noteq> None)")
    case True
    with Cons.prems show ?thesis by (auto split: if_splits option.splits)
  next
    case False
    then have "wait_for_gather own ts (loop_step own ts ev h) evs = (h', r)"
      using Cons.prems by (auto split: if_splits option.splits)
    from Cons.IH [OF this loop_step_done [OF Cons.prems(2)]] show ?thesis .
  qed
qed

lemma wait_for_gather_requested:
  "wait_for_gather own ts h evs = (h', r) \<Longrightarrow> t < length (tasks h) \<Longrightarrow>
     cancel_requested (tasks h ! t) \<Longrightarrow> cancel_requested (tasks h' ! t)"
proof (induction evs arbitrary: h)
  case Nil
  then show ?case by simp
next
  case (Cons ev evs)
  show ?case
  proof (cases "\<not> loop_running h \<or> (ev = OwnTaskWoken \<and> resume own ts h \<noteq> None)")
    case True
    with Cons.prems show ?thesis by (auto split: if_splits option.splits)
  next
    case False
    then have run: "wait_for_gather own ts (loop_step own ts ev h) evs = (h', r)"
      using Cons.prems by (auto split: if_splits option.splits)
    have "t < length (tasks (loop_step own ts ev h))"
      using Cons.prems(2) loop_step_length [of h own ts ev] by simp
    from Cons.IH [OF run this loop_step_requested [OF Cons.prems(2,3)]] show ?thesis .
  qed
qed

lemma wait_for_gather_later:
  assumes "wait_for_gather own ts h evs = (h', r)"
    and "\<forall>t\<in>set ts. t < n" and "\<forall>c. own = Some c \<longrightarrow> c < n"
    and "\<forall>u. n \<le> u \<and> u < length (tasks h) \<longrightarrow> \<not> cancel_requested (tasks h ! u)"
  shows "\<forall>u. n \<le> u \<and> u < length (tasks h') \<longrightarrow> \<not> cancel_requested (tasks h' ! u)"
  using assms(1,4)
proof (induction evs arbitrary: h)
  case Nil
  then show ?case by simp
next
  case (Cons ev evs)
  show ?case
  proof (cases "\<not> loop_running h \<or> (ev = OwnTaskWoken \<and> resume own ts h \<noteq> None)")
    case True
    with Cons.prems show ?thesis by (auto split: if_splits option.splits)
  next
    case False
    then have run: "wait_for_gather own ts (loop_step own ts ev h) evs = (h', r)"
      using Cons.prems(1) by (auto split: if_splits option.splits)
    have "\<forall>u. n \<le> u \<and> u < length (tasks (loop_step own ts ev h)) \<longrightarrow>
            \<not> cancel_requested (tasks (loop_step own ts ev h) ! u)"
      using loop_step_later [OF assms(2,3)] Cons.prems(2) by blast
    from Cons.IH [OF run this] show ?thesis .
  qed
qed


subsection \<open>The whole \<open>await\<close>\<close>

lemma await_gather_frame:
  "await_gather own ts h evs = (h', r) \<Longrightarrow>
     shutdown_event h' = shutdown_event h \<and> db_session h' = db_session h
     \<and> effects h' = effects h \<and> length (tasks h) \<le> length (tasks h')"
  using wait_for_gather_frame [of own ts h evs h' r]
  by (auto simp: await_gather_def split: option.splits)

lemma await_gather_resumed:
  assumes "await_gather own ts h evs = (h', Some r)"
  shows "(\<forall>t\<in>set ts. is_done h' t)
       \<and> (case r of Returns xs \<Rightarrow> True
                   | Raises e \<Rightarrow> e = CancelledError \<and> own_cancel_requested own h')"
proof (cases "gather_results ts h")
  case None
  with assms have "wait_for_gather own ts h evs = (h', Some r)"
    by (simp add: await_gather_def)
  then have "resume own ts h' = Some r" using wait_for_gather_resumed by blast
  then show ?thesis using resume_Returns [of own ts h'] resume_Raises [of own ts h']
    by (cases r) auto
next
  case (Some xs)
  with assms have "h' = h" "r = Returns xs" by (simp_all add: await_gather_def)
  with Some show ?thesis using gather_results_Some_iff [of ts h] by auto
qed

lemma await_gather_requested:
  "await_gather own ts h evs = (h', r) \<Longrightarrow> t < length (tasks h) \<Longrightarrow>
     cancel_requested (tasks h ! t) \<Longrightarrow> cancel_requested (tasks h' ! t)"
  using wait_for_gather_requested [of own ts h evs h' r t]
  by (auto simp: await_gather_def split: option.splits)

lemma await_gather_later:
  assumes "await_gather own ts h evs = (h', r)"
    and "\<forall>t\<in>set ts. t < n" and "\<forall>c. own = Some c \<longrightarrow> c < n"
    and "\<forall>u. n \<le> u \<and> u < length (tasks h) \<longrightarrow> \<not> cancel_requested (tasks h ! u)"
  shows "\<forall>u. n \<le> u \<and> u < length (tasks h') \<longrightarrow> \<not> cancel_requested (tasks h' ! u)"
proof (cases "gather_results ts h")
  case None
  with assms(1) have "wait_for_gather own ts h evs = (h', r)" by (simp add: await_gather_def)
  from wait_for_gather_later [OF this assms(2,3,4)] show ?thesis .
next
  case (Some xs)
  with assms(1) have "h' = h" by (simp add: await_gather_def)
  with assms(4) show ?thesis by simp
qed


subsection \<open>The end of the own task\<close>

lemma end_own_task_fields [simp]:
  "shutdown_event (end_own_task own r h) = shutdown_event h"
  "db_session (end_own_task own r h) = db_session h"
  "loop_running (end_own_task own r h) = loop_running h"
  "effects (end_own_task own r h) = effects h"
  "length (tasks (end_own_task own r h)) = length (tasks h)"
  by (simp_all add: end_own_task_def split: option.splits)

lemma end_own_task_requested [simp]:
  "cancel_requested (tasks (end_own_task own r h) ! u) = cancel_requested (tasks h ! u)"
proof (cases own)
  case None
  then show ?thesis by (simp add: end_own_task_def)
next
  case (Some c)
  then show ?thesis
    by (cases "u = c") (auto simp: end_own_task_def lookup_task_def)
qed

lemma end_own_task_done: "is_done h t \<Longrightarrow> is_done (end_own_task own r h) t"
proof (cases own)
  case None
  assume "is_done h t"
  with None show ?thesis by (simp add: end_own_task_def)
next
  case (Some c)
  assume "is_done h t"
  with Some show ?thesis
    by (cases "t = c") (auto simp: end_own_task_def lookup_task_def is_done_iff)
qed

lemma own_cancel_requested_end [simp]:
  "own_cancel_requested own' (end_own_task own r h) = own_cancel_requested own' h"
  by (cases own') (simp_all add: own_cancel_requested_def lookup_task_def)

subsection \<open>\<open>shutdown_procedures\<close>\<close>

lemma shutdown_procedures_not_running:
  "\<not> loop_running h \<Longrightarrow>
     shutdown_procedures order cur schedule h =
       (h, Ended (Raises (RuntimeError ''no running event loop'')))"
  by (simp add: shutdown_procedures_def)

lemma shutdown_procedures_cancelled_before_start:
  "loop_running h \<Longrightarrow> cancelled_before_start cur h \<Longrightarrow>
     shutdown_procedures order cur schedule h =
       (end_own_task (Some cur) Cancelled h, Ended (Raises CancelledError))"
  by (simp add: shutdown_procedures_def)


lemma shutdown_procedures_running:
  assumes "loop_running h" and "\<not> cancelled_before_start cur h"
    and "await_gather (if is_pending h cur then Some cur else None)
           (enumerate_tasks order cur h) (fold task_cancel (enumerate_tasks order cur h) h)
           schedule = (h2, r)"
  shows "shutdown_procedures order cur schedule h =
     (case r of
        None \<Rightarrow> (h2, Suspended)
      | Some (Raises e) \<Rightarrow>
          (end_own_task (if is_pending h cur then Some cur else None) (raised e) h2,
           Ended (Raises e))
      | Some (Returns xs) \<Rightarrow>
          (end_own_task (if is_pending h cur then Some cur else None) Completed
             (emit (Log INFO ''all tasks have been cancelled or completed'' [])
                (emit EventSet (h2\<lparr>shutdown_event := True\<rparr>))),
           Ended (Returns ())))"
  using assms by (simp add: shutdown_procedures_def Let_def split: option.splits result.splits)

lemma shutdown_procedures_summary:
  assumes run: "shutdown_procedures order cur schedule h = (h', st)"
    and running: "loop_running h" and begun: "\<not> cancelled_before_start cur h"
  shows "emitted h h' =
           map CancelCalled (enumerate_tasks order cur h) @
           (if st = Ended (Returns ())
            then [EventSet, Log INFO ''all tasks have been cancelled or completed'' []] else [])"
    and "st = Ended (Returns ()) \<longrightarrow> (\<forall>t\<in>set (enumerate_tasks order cur h). is_done h' t)"
    and "shutdown_event h' = (st = Ended (Returns ()) \<or> shutdown_event h)"
    and "\<forall>u. length (tasks h) \<le> u \<and> u < length (tasks h') \<longrightarrow>
           \<not> cancel_requested (tasks h' ! u)"
    and "\<forall>t\<in>set (enumerate_tasks order cur h). cancel_requested (tasks h' ! t)"
    and "\<forall>e. st = Ended (Raises e) \<longrightarrow>
           e = CancelledError \<and> own_cancel_requested (Some cur) h'"
proof -
  define ts where "ts = enumerate_tasks order cur h"
  define own where "own = (if is_pending h cur then Some cur else None)"
  define h1 where "h1 = fold task_cancel ts h"
  obtain h2 r where aw: "await_gather own ts h1 schedule = (h2, r)"
    by (cases "await_gather own ts h1 schedule") auto
  have sp: "(h', st) =
     (case r of
        None \<Rightarrow> (h2, Suspended)
      | Some (Raises e) \<Rightarrow> (end_own_task own (raised e) h2, Ended (Raises e))
      | Some (Returns xs) \<Rightarrow>
          (end_own_task own Completed
             (emit (Log INFO ''all tasks have been cancelled or completed'' [])
                (emit EventSet (h2\<lparr>shutdown_event := True\<rparr>))),
           Ended (Returns ())))"
  proof -
    have "await_gather (if is_pending h cur then Some cur else None)
           (enumerate_tasks order cur h) (fold task_cancel (enumerate_tasks order cur h) h)
           schedule = (h2, r)"
      using aw unfolding ts_def own_def h1_def .
    from shutdown_procedures_running [OF running begun this] run show ?thesis
      unfolding own_def by simp
  qed
  have frame: "shutdown_event h2 = shutdown_event h"
    "effects h2 = effects h @ map CancelCalled ts"
    "length (tasks h) \<le> length (tasks h2)"
    using await_gather_frame [OF aw] by (simp_all add: h1_def)
  have valid: "\<forall>t\<in>set ts. t < length (tasks h)"
    by (simp add: ts_def set_enumerate_tasks)
  have ownv: "\<forall>c. own = Some c \<longrightarrow> c < length (tasks h)"
    by (auto simp: own_def is_pending_iff)
  have tasks': "\<And>u. cancel_requested (tasks h' ! u) = cancel_requested (tasks h2 ! u)"
    and len': "length (tasks h') = length (tasks h2)"
    using sp by (auto split: option.splits result.splits)
  have later2: "\<forall>u. length (tasks h) \<le> u \<and> u < length (tasks h2) \<longrightarrow>
           \<not> cancel_requested (tasks h2 ! u)"
  proof -
    have "\<forall>u. length (tasks h) \<le> u \<and> u < length (tasks h1) \<longrightarrow>
            \<not> cancel_requested (tasks h1 ! u)"
      by (auto simp: h1_def)
    from await_gather_later [OF aw valid ownv this] show ?thesis .
  qed
  have req2: "\<forall>t\<in>set ts. cancel_requested (tasks h2 ! t)"
  proof
    fix t assume t: "t \<in> set ts"
    then have "is_pending h t" by (simp add: ts_def set_enumerate_tasks is_pending_iff)
    with t have "cancel_requested (tasks h1 ! t)"
      by (simp add: h1_def fold_task_cancel_requested)
    moreover have "t < length (tasks h1)" using t valid by (simp add: h1_def)
    ultimately show "cancel_requested (tasks h2 ! t)"
      using await_gather_requested [OF aw] by blast
  qed
  show "emitted h h' = map CancelCalled (enumerate_tasks order cur h) @
           (if st = Ended (Returns ())
            then [EventSet, Log INFO ''all tasks have been cancelled or completed'' []] else [])"
    using sp frame by (auto simp: emitted_def ts_def split: option.splits result.splits)
  show "st = Ended (Returns ()) \<longrightarrow> (\<forall>t\<in>set (enumerate_tasks order cur h). is_done h' t)"
  proof
    assume "st = Ended (Returns ())"
    with sp obtain xs where r: "r = Some (Returns xs)"
      and h': "h' = end_own_task own Completed
             (emit (Log INFO ''all tasks have been cancelled or completed'' [])
                (emit EventSet (h2\<lparr>shutdown_event := True\<rparr>)))"
      by (auto split: option.splits result.splits)
    from aw r have "\<forall>t\<in>set ts. is_done h2 t" using await_gather_resumed by blast
    then show "\<forall>t\<in>set (enumerate_tasks order cur h). is_done h' t"
      by (simp add: h' ts_def end_own_task_done)
  qed
  show "shutdown_event h' = (st = Ended (Returns ()) \<or> shutdown_event h)"
    using sp frame by (auto split: option.splits result.splits)
  show "\<forall>u. length (tasks h) \<le> u \<and> u < length (tasks h') \<longrightarrow>
           \<not> cancel_requested (tasks h' ! u)"
    using later2 by (simp add: tasks' len')
  show "\<forall>t\<in>set (enumerate_tasks order cur h). cancel_requested (tasks h' ! t)"
    using req2 by (simp add: tasks' ts_def)
  show "\<forall>e. st = Ended (Raises e) \<longrightarrow>
           e = CancelledError \<and> own_cancel_requested (Some cur) h'"
  proof (intro allI impI)
    fix e assume "st = Ended (Raises e)"
    with sp have r: "r = Some (Raises e)" and h': "h' = end_own_task own (raised e) h2"
      by (auto split: option.splits result.splits)
    from aw r have e: "e = CancelledError" and oc: "own_cancel_requested own h2"
      using await_gather_resumed [of own ts h1 schedule h2 "Raises e"] by auto
    from oc have "own = Some cur" by (auto simp: own_def own_cancel_requested_def split: if_splits)
    with oc e show "e = CancelledError \<and> own_cancel_requested (Some cur) h'"
      by (simp add: h')
  qed
qed

lemma shutdown_procedures_event:
  "shutdown_event (fst (shutdown_procedures order cur schedule h)) =
     (snd (shutdown_procedures order cur schedule h) = Ended (Returns ()) \<or> shutdown_event h)"
proof -
  consider "\<not> loop_running h" | "loop_running h" "cancelled_before_start cur h"
    | "loop_running h" "\<not> cancelled_before_start cur h" by blast
  then show ?thesis
  proof cases
    case 1
    then show ?thesis by (simp add: shutdown_procedures_not_running)
  next
    case 2
    then show ?thesis by (simp add: shutdown_procedures_cancelled_before_start)
  next
    case 3
    show ?thesis
      using shutdown_procedures_summary(3) [OF _ 3, of order schedule]
      by (metis prod.collapse)
  qed
qed


text \<open>
  A second signal while the first \<open>shutdown_procedures\<close> waits: the second one cancels
  the task of the first, which ends with \<open>CancelledError\<close> once its children are done,
  and does not set the event.
\<close>

lemma shutdown_procedures_own_task_cancelled:
  "shutdown_procedures [] 3
       [TaskFinishes 0 Cancelled, OwnTaskCancelled, TaskFinishes 1 Cancelled,
        TaskFinishes 2 Completed, OwnTaskWoken]
       three_dummy_tasks =
     (\<lparr> tasks = [\<lparr>coro = OtherCoroutine ''dummy 0'', status = Done Cancelled, cancel_requested = True\<rparr>,
                 \<lparr>coro = OtherCoroutine ''dummy 1'', status = Done Cancelled, cancel_requested = True\<rparr>,
                 \<lparr>coro = OtherCoroutine ''dummy 2'', status = Done Completed, cancel_requested = True\<rparr>,
                 \<lparr>coro = ShutdownProcedures, status = Done Cancelled, cancel_requested = True\<rparr>],
        loop_running = True, shutdown_event = False, db_session = None,
        effects = [CancelCalled 0, CancelCalled 1, CancelCalled 2] \<rparr>,
      Ended (Raises CancelledError))"
  by code_simp

section \<open>Properties of \<open>__cleanup\<close> and \<open>run_server\<close>\<close>

lemma cleanup_shape:
  "\<exists>post. fst (cleanup h) = h\<lparr>effects := effects h @ CleanupCalled # post\<rparr>
      \<and> CleanupCalled \<notin> set post"
proof (cases "db_session h")
  case None
  then show ?thesis
    by (intro exI [of _ "[Log INFO ''cleanup process completed'' []]"])
       (simp add: cleanup_def emit_def)
next
  case (Some s)
  show ?thesis
  proof (cases "session_close s")
    case (Returns u)
    with Some show ?thesis
      by (intro exI [of _ "[CloseCalled, Log DEBUG ''database connection closed'' [],
                            Log INFO ''cleanup process completed'' []]"])
         (simp add: cleanup_def emit_def)
  next
    case (Raises e)
    show ?thesis
    proof (cases "is_Exception e")
      case True
      with Some Raises show ?thesis
        by (intro exI [of _ "[CloseCalled, Log ERROR ''error during cleanup: {e}'' [ArgExc e],
                              Log INFO ''cleanup process completed'' []]"])
           (simp add: cleanup_def emit_def)
    next
      case False
      with Some Raises show ?thesis
        by (intro exI [of _ "[CloseCalled, Log INFO ''cleanup process completed'' []]"])
           (simp add: cleanup_def emit_def)
    qed
  qed
qed

lemma cleanup_effects:
  "\<exists>post. effects (fst (cleanup h)) = effects h @ CleanupCalled # post \<and> CleanupCalled \<notin> set post"
  using cleanup_shape [of h] by auto

lemma cleanup_frame:
  "tasks (fst (cleanup h)) = tasks h \<and> loop_running (fst (cleanup h)) = loop_running h
   \<and> shutdown_event (fst (cleanup h)) = shutdown_event h
   \<and> db_session (fst (cleanup h)) = db_session h"
  using cleanup_shape [of h] by auto

text \<open>
  C6. Without a resource handle, \<open>__cleanup\<close> calls no \<open>close\<close>, raises nothing, and
  logs its completion message: the completion record is all it emits after its entry.
\<close>

theorem cleanup_without_session:
  "db_session h = None \<Longrightarrow>
     cleanup h =
       (h\<lparr>effects := effects h @ [CleanupCalled, Log INFO ''cleanup process completed'' []]\<rparr>,
        Returns ())"
  by (simp add: cleanup_def emit_def)

theorem cleanup_without_session_witness:
  "cleanup \<lparr> tasks = [], loop_running = True, shutdown_event = False, db_session = None,
             effects = [] \<rparr> =
     (\<lparr> tasks = [], loop_running = True, shutdown_event = False, db_session = None,
        effects = [CleanupCalled, Log INFO ''cleanup process completed'' []] \<rparr>,
      Returns ())"
  using cleanup_without_session [of "\<lparr> tasks = [], loop_running = True,
          shutdown_event = False, db_session = None, effects = [] \<rparr>"]
  by simp

text \<open>
  C5, as the code has it. With a handle attached whose \<open>close\<close> raises: when the
  exception is an instance of \<open>Exception\<close>, \<open>__cleanup\<close> logs the failure, logs completion
  and returns; when it is not (\<open>CancelledError\<close>, \<open>KeyboardInterrupt\<close>, \<open>SystemExit\<close>),
  \<open>__cleanup\<close> still logs completion, but logs no failure and lets the exception through.
\<close>

theorem cleanup_when_close_raises:
  "db_session h = Some s \<Longrightarrow> session_close s = Raises e \<Longrightarrow>
     cleanup h =
       (if is_Exception e
        then (h\<lparr>effects := effects h @
                  [CleanupCalled, CloseCalled,
                   Log ERROR ''error during cleanup: {e}'' [ArgExc e],
                   Log INFO ''cleanup process completed'' []]\<rparr>,
              Returns ())
        else (h\<lparr>effects := effects h @
                  [CleanupCalled, CloseCalled, Log INFO ''cleanup process completed'' []]\<rparr>,
              Raises e))"
  by (simp add: cleanup_def emit_def)

theorem cleanup_when_close_raises_witness:
  "cleanup \<lparr> tasks = [], loop_running = True, shutdown_event = False,
             db_session = Some (Session (Raises (Exception ''connection lost''))),
             effects = [] \<rparr> =
     (\<lparr> tasks = [], loop_running = True, shutdown_event = False,
        db_session = Some (Session (Raises (Exception ''connection lost''))),
        effects = [CleanupCalled, CloseCalled,
                   Log ERROR ''error during cleanup: {e}'' [ArgExc (Exception ''connection lost'')],
                   Log INFO ''cleanup process completed'' []] \<rparr>,
      Returns ())"
  using cleanup_when_close_raises [of "\<lparr> tasks = [], loop_running = True,
          shutdown_event = False,
          db_session = Some (Session (Raises (Exception ''connection lost''))),
          effects = [] \<rparr>" "Session (Raises (Exception ''connection lost''))"
          "Exception ''connection lost''"]
  by simp

text \<open>
  C5, as the claim has it, fails where \<open>close\<close> is cancelled while \<open>__cleanup\<close> awaits it:
  \<open>CancelledError\<close> leaves \<open>__cleanup\<close>, and no failure is logged.
\<close>

theorem cleanup_propagates_cancellation:
  "cleanup \<lparr> tasks = [], loop_running = True, shutdown_event = False,
             db_session = Some (Session (Raises CancelledError)), effects = [] \<rparr> =
     (\<lparr> tasks = [], loop_running = True, shutdown_event = False,
        db_session = Some (Session (Raises CancelledError)),
        effects = [CleanupCalled, CloseCalled, Log INFO ''cleanup process completed'' []] \<rparr>,
      Raises CancelledError)"
  by (simp add: cleanup_def emit_def)

text \<open>
  C2. Whatever \<open>await server.serve()\<close> ends with, a return or any exception, the effects
  of \<open>run_server\<close> hold the entry into \<open>__cleanup\<close> exactly once, and the call of the
  serving loop and its end come before it.
\<close>

theorem run_server_cleans_up_once:
  "\<exists>pre post. emitted h (fst (run_server serve h)) = pre @ CleanupCalled # post
      \<and> ServeCalled \<in> set pre \<and> ServeExited serve \<in> set pre
      \<and> CleanupCalled \<notin> set pre \<and> CleanupCalled \<notin> set post"
proof -
  define h2 where "h2 = fst (case serve of
               Returns _ \<Rightarrow> (emit (ServeExited serve) (emit ServeCalled h), Returns ())
             | Raises e \<Rightarrow>
                 if is_Exception e
                 then (emit (Log ERROR ''unexpected error while running the server: {e}''
                               [ArgExc e]) (emit (ServeExited serve) (emit ServeCalled h)),
                       Returns ())
                 else (emit (ServeExited serve) (emit ServeCalled h), Raises e))"
  have rs: "fst (run_server serve h) = fst (cleanup h2)"
    by (simp add: run_server_def h2_def Let_def split: prod.splits result.splits)
  define pre where "pre = [ServeCalled, ServeExited serve] @
      (case serve of
         Returns _ \<Rightarrow> []
       | Raises e \<Rightarrow>
           if is_Exception e
           then [Log ERROR ''unexpected error while running the server: {e}'' [ArgExc e]]
           else [])"
  have pre: "effects h2 = effects h @ pre" "ServeCalled \<in> set pre"
      "ServeExited serve \<in> set pre" "CleanupCalled \<notin> set pre"
    by (simp_all add: h2_def pre_def emit_def split: result.splits)
  obtain post where post: "effects (fst (cleanup h2)) = effects h2 @ CleanupCalled # post"
      "CleanupCalled \<notin> set post"
    using cleanup_effects by blast
  have "emitted h (fst (run_server serve h)) = pre @ CleanupCalled # post"
    by (simp add: emitted_def rs post pre)
  with pre post show ?thesis by blast
qed

theorem run_server_cleans_up_once_witness:
  "emitted \<lparr> tasks = [], loop_running = True, shutdown_event = False, db_session = None,
             effects = [] \<rparr>
       (fst (run_server (Raises (Exception ''bind failed''))
          \<lparr> tasks = [], loop_running = True, shutdown_event = False, db_session = None,
             effects = [] \<rparr>)) =
     [ServeCalled, ServeExited (Raises (Exception ''bind failed'')),
      Log ERROR ''unexpected error while running the server: {e}''
        [ArgExc (Exception ''bind failed'')],
      CleanupCalled, Log INFO ''cleanup process completed'' []]
   \<and> (\<exists>pre post.
        emitted \<lparr> tasks = [], loop_running = True, shutdown_event = False, db_session = None,
                  effects = [] \<rparr>
          (fst (run_server (Raises (Exception ''bind failed''))
             \<lparr> tasks = [], loop_running = True, shutdown_event = False, db_session = None,
                effects = [] \<rparr>)) = pre @ CleanupCalled # post
        \<and> ServeCalled \<in> set pre \<and> ServeExited (Raises (Exception ''bind failed'')) \<in> set pre
        \<and> CleanupCalled \<notin> set pre \<and> CleanupCalled \<notin> set post)"
  using run_server_cleans_up_once [of "\<lparr> tasks = [], loop_running = True,
          shutdown_event = False, db_session = None, effects = [] \<rparr>"
          "Raises (Exception ''bind failed'')"]
  by (simp add: run_server_def cleanup_def emit_def emitted_def)

section \<open>Properties of \<open>shutdown_procedures\<close> and the signal handler\<close>

lemma signal_handler_event [simp]:
  "shutdown_event (fst (signal_handler signum h)) = shutdown_event h"
  by (simp add: signal_handler_def create_task_def emit_def Let_def)

lemma cleanup_event [simp]: "shutdown_event (fst (cleanup h)) = shutdown_event h"
  using cleanup_shape [of h] by auto

lemma run_server_shape:
  "\<exists>pre. fst (run_server serve h) =
           fst (cleanup (h\<lparr>effects := effects h @ ServeCalled # ServeExited serve # pre\<rparr>))
         \<and> CleanupCalled \<notin> set pre"
proof (cases serve)
  case (Returns u)
  then show ?thesis
    by (intro exI [of _ "[]"]) (simp add: run_server_def emit_def Let_def split: prod.splits)
next
  case (Raises e)
  show ?thesis
  proof (cases "is_Exception e")
    case True
    with Raises show ?thesis
      by (intro exI [of _ "[Log ERROR ''unexpected error while running the server: {e}''
                              [ArgExc e]]"])
         (simp add: run_server_def emit_def Let_def split: prod.splits)
  next
    case False
    with Raises show ?thesis
      by (intro exI [of _ "[]"]) (simp add: run_server_def emit_def Let_def split: prod.splits)
  qed
qed

lemma run_server_event [simp]: "shutdown_event (fst (run_server serve h)) = shutdown_event h"
  using run_server_shape [of serve h] by auto

lemma exec_keeps_event: "shutdown_event h \<Longrightarrow> shutdown_event (exec op h)"
  by (cases op) (simp_all add: shutdown_procedures_event)

lemma fold_exec_keeps_event: "shutdown_event h \<Longrightarrow> shutdown_event (fold exec ops h)"
  by (induction ops arbitrary: h) (simp_all add: exec_keeps_event)

text \<open>
  C1. \<open>shutdown_procedures\<close> enumerates exactly the tasks that are pending when it
  begins, its own task left out, each once, in whatever order the set gives them. Begun
  in a running loop, and not cancelled before its first step, it calls \<open>cancel\<close> on each
  of them in that order and on nothing else, and each has its cancellation requested
  from then on. When it has returned,
  every one of them is done (completed, cancelled or failed) and the shutdown event is
  set, setting the event and the log record being its last two effects. When it has not
  returned, the event is as it was.
\<close>

theorem shutdown_procedures_cancels_and_waits:
  assumes run: "shutdown_procedures order cur schedule h = (h', st)"
  shows "set (enumerate_tasks order cur h) =
           {t. t < length (tasks h) \<and> status (tasks h ! t) = Pending \<and> t \<noteq> cur}
       \<and> distinct (enumerate_tasks order cur h)
       \<and> (loop_running h \<and> \<not> cancelled_before_start cur h \<longrightarrow>
            emitted h h' =
              map CancelCalled (enumerate_tasks order cur h) @
              (if st = Ended (Returns ())
               then [EventSet, Log INFO ''all tasks have been cancelled or completed'' []]
               else [])
            \<and> (\<forall>t\<in>set (enumerate_tasks order cur h). cancel_requested (tasks h' ! t)))
       \<and> (st = Ended (Returns ()) \<longrightarrow>
            (\<forall>t\<in>set (enumerate_tasks order cur h). is_done h' t) \<and> shutdown_event h')
       \<and> (st \<noteq> Ended (Returns ()) \<longrightarrow> shutdown_event h' = shutdown_event h)"
proof -
  note enum = set_enumerate_tasks [of order cur h] distinct_enumerate_tasks [of order cur h]
  consider "\<not> loop_running h" | "loop_running h" "cancelled_before_start cur h"
    | "loop_running h" "\<not> cancelled_before_start cur h" by blast
  then show ?thesis
  proof cases
    case 1
    with run have "h' = h" "st = Ended (Raises (RuntimeError ''no running event loop''))"
      by (simp_all add: shutdown_procedures_not_running)
    with 1 enum show ?thesis by simp
  next
    case 2
    with run have "h' = end_own_task (Some cur) Cancelled h"
      "st = Ended (Raises CancelledError)"
      by (simp_all add: shutdown_procedures_cancelled_before_start)
    with 2 enum show ?thesis by simp
  next
    case 3
    note summary = shutdown_procedures_summary [OF run 3]
    have "st = Ended (Returns ()) \<longrightarrow>
            (\<forall>t\<in>set (enumerate_tasks order cur h). is_done h' t) \<and> shutdown_event h'"
      using summary(2,3) by blast
    moreover have "st \<noteq> Ended (Returns ()) \<longrightarrow> shutdown_event h' = shutdown_event h"
      using summary(3) by blast
    ultimately show ?thesis using summary(1,5) enum by blast
  qed
qed

theorem shutdown_procedures_cancels_and_waits_witness:
  "shutdown_procedures [2, 0, 1] 3
       [TaskFinishes 0 Cancelled, TaskFinishes 1 Cancelled, TaskFinishes 2 Cancelled,
        OwnTaskWoken]
       three_dummy_tasks =
     (\<lparr> tasks = [\<lparr>coro = OtherCoroutine ''dummy 0'', status = Done Cancelled, cancel_requested = True\<rparr>,
                 \<lparr>coro = OtherCoroutine ''dummy 1'', status = Done Cancelled, cancel_requested = True\<rparr>,
                 \<lparr>coro = OtherCoroutine ''dummy 2'', status = Done Cancelled, cancel_requested = True\<rparr>,
                 \<lparr>coro = ShutdownProcedures, status = Done Completed, cancel_requested = False\<rparr>],
        loop_running = True, shutdown_event = True, db_session = None,
        effects = [CancelCalled 2, CancelCalled 0, CancelCalled 1, EventSet,
                   Log INFO ''all tasks have been cancelled or completed'' []] \<rparr>,
      Ended (Returns ()))
   \<and> enumerate_tasks [2, 0, 1] 3 three_dummy_tasks = [2, 0, 1]
   \<and> is_done (fst (shutdown_procedures [2, 0, 1] 3
         [TaskFinishes 0 Cancelled, TaskFinishes 1 Cancelled, TaskFinishes 2 Cancelled,
          OwnTaskWoken] three_dummy_tasks)) 0
   \<and> is_done (fst (shutdown_procedures [2, 0, 1] 3
         [TaskFinishes 0 Cancelled, TaskFinishes 1 Cancelled, TaskFinishes 2 Cancelled,
          OwnTaskWoken] three_dummy_tasks)) 1
   \<and> is_done (fst (shutdown_procedures [2, 0, 1] 3
         [TaskFinishes 0 Cancelled, TaskFinishes 1 Cancelled, TaskFinishes 2 Cancelled,
          OwnTaskWoken] three_dummy_tasks)) 2
   \<and> shutdown_event (fst (shutdown_procedures [2, 0, 1] 3
         [TaskFinishes 0 Cancelled, TaskFinishes 1 Cancelled, TaskFinishes 2 Cancelled,
          OwnTaskWoken] three_dummy_tasks))
   \<and> shutdown_procedures [] 0 [] only_shutdown_task =
     (\<lparr> tasks = [\<lparr>coro = ShutdownProcedures, status = Done Completed, cancel_requested = False\<rparr>],
        loop_running = True, shutdown_event = True, db_session = None,
        effects = [EventSet, Log INFO ''all tasks have been cancelled or completed'' []] \<rparr>,
      Ended (Returns ()))
   \<and> enumerate_tasks [] 0 only_shutdown_task = []
   \<and> shutdown_event (fst (shutdown_procedures [] 0 [] only_shutdown_task))"
proof -
  have run3: "shutdown_procedures [2, 0, 1] 3
       [TaskFinishes 0 Cancelled, TaskFinishes 1 Cancelled, TaskFinishes 2 Cancelled,
        OwnTaskWoken]
       three_dummy_tasks =
     (\<lparr> tasks = [\<lparr>coro = OtherCoroutine ''dummy 0'', status = Done Cancelled, cancel_requested = True\<rparr>,
                 \<lparr>coro = OtherCoroutine ''dummy 1'', status = Done Cancelled, cancel_requested = True\<rparr>,
                 \<lparr>coro = OtherCoroutine ''dummy 2'', status = Done Cancelled, cancel_requested = True\<rparr>,
                 \<lparr>coro = ShutdownProcedures, status = Done Completed, cancel_requested = False\<rparr>],
        loop_running = True, shutdown_event = True, db_session = None,
        effects = [CancelCalled 2, CancelCalled 0, CancelCalled 1, EventSet,
                   Log INFO ''all tasks have been cancelled or completed'' []] \<rparr>,
      Ended (Returns ()))"
    by code_simp
  have run0: "shutdown_procedures [] 0 [] only_shutdown_task =
     (\<lparr> tasks = [\<lparr>coro = ShutdownProcedures, status = Done Completed, cancel_requested = False\<rparr>],
        loop_running = True, shutdown_event = True, db_session = None,
        effects = [EventSet, Log INFO ''all tasks have been cancelled or completed'' []] \<rparr>,
      Ended (Returns ()))"
    by code_simp
  have enum3: "enumerate_tasks [2, 0, 1] 3 three_dummy_tasks = [2, 0, 1]" by code_simp
  have enum0: "enumerate_tasks [] 0 only_shutdown_task = []" by code_simp
  note all3 = shutdown_procedures_cancels_and_waits [OF run3]
  note all0 = shutdown_procedures_cancels_and_waits [OF run0]
  have done3: "is_done (fst (shutdown_procedures [2, 0, 1] 3
         [TaskFinishes 0 Cancelled, TaskFinishes 1 Cancelled, TaskFinishes 2 Cancelled,
          OwnTaskWoken] three_dummy_tasks)) 0
      \<and> is_done (fst (shutdown_procedures [2, 0, 1] 3
         [TaskFinishes 0 Cancelled, TaskFinishes 1 Cancelled, TaskFinishes 2 Cancelled,
          OwnTaskWoken] three_dummy_tasks)) 1
      \<and> is_done (fst (shutdown_procedures [2, 0, 1] 3
         [TaskFinishes 0 Cancelled, TaskFinishes 1 Cancelled, TaskFinishes 2 Cancelled,
          OwnTaskWoken] three_dummy_tasks)) 2
      \<and> shutdown_event (fst (shutdown_procedures [2, 0, 1] 3
         [TaskFinishes 0 Cancelled, TaskFinishes 1 Cancelled, TaskFinishes 2 Cancelled,
          OwnTaskWoken] three_dummy_tasks))"
    using all3 [THEN conjunct2, THEN conjunct2, THEN conjunct2, THEN conjunct1]
    unfolding run3 enum3 by simp
  have done0: "shutdown_event (fst (shutdown_procedures [] 0 [] only_shutdown_task))"
    using all0 [THEN conjunct2, THEN conjunct2, THEN conjunct2, THEN conjunct1]
    unfolding run0 by simp
  from run3 run0 enum3 enum0 done3 done0 show ?thesis by blast
qed



text \<open>
  After the first task has failed, \<open>shutdown_procedures\<close> is still waiting for the two
  others.
\<close>

lemma shutdown_procedures_waits_for_siblings:
  "shutdown_procedures [] 3 [TaskFinishes 0 (Failed (Exception ''boom''))] three_dummy_tasks =
     (\<lparr> tasks = [\<lparr>coro = OtherCoroutine ''dummy 0'', status = Done (Failed (Exception ''boom'')),
                   cancel_requested = True\<rparr>,
                 \<lparr>coro = OtherCoroutine ''dummy 1'', status = Pending, cancel_requested = True\<rparr>,
                 \<lparr>coro = OtherCoroutine ''dummy 2'', status = Pending, cancel_requested = True\<rparr>,
                 \<lparr>coro = ShutdownProcedures, status = Pending, cancel_requested = False\<rparr>],
        loop_running = True, shutdown_event = False, db_session = None,
        effects = [CancelCalled 0, CancelCalled 1, CancelCalled 2] \<rparr>,
      Suspended)"
  by code_simp




text \<open>
  C7, as the code has it. The handler logs the receipt of the signal first. With a loop
  running, it then creates one new pending task for \<open>shutdown_procedures\<close> and returns:
  it runs no step of that task, requests no cancellation, and leaves the shutdown event
  and the existing tasks as they were. With no loop running, \<open>asyncio.create_task\<close>
  raises \<open>RuntimeError\<close> and nothing is scheduled.
\<close>

theorem signal_handler_schedules_shutdown:
  "signal_handler signum h =
     (if loop_running h
      then (h\<lparr>tasks := tasks h @
                 [\<lparr>coro = ShutdownProcedures, status = Pending, cancel_requested = False\<rparr>],
              effects := effects h @
                 [Log INFO ''signal {signum} received, initiating graceful shutdown...''
                    [ArgInt signum],
                  CreateTask (length (tasks h)) ShutdownProcedures]\<rparr>,
            Returns ())
      else (h\<lparr>effects := effects h @
                 [Log INFO ''signal {signum} received, initiating graceful shutdown...''
                    [ArgInt signum]]\<rparr>,
            Raises (RuntimeError ''no running event loop'')))"
  by (simp add: signal_handler_def create_task_def emit_def Let_def)


theorem signal_handler_schedules_shutdown_witness:
  "signal_handler 15 three_dummy_tasks =
     (three_dummy_tasks
        \<lparr>tasks := tasks three_dummy_tasks @
           [\<lparr>coro = ShutdownProcedures, status = Pending, cancel_requested = False\<rparr>],
         effects :=
           [Log INFO ''signal {signum} received, initiating graceful shutdown...'' [ArgInt 15],
            CreateTask 4 ShutdownProcedures]\<rparr>,
      Returns ())"
  using signal_handler_schedules_shutdown [of 15 three_dummy_tasks] by (simp add: three_dummy_tasks_def)

text \<open>
  C7, as the claim has it, fails for a signal that arrives when no event loop is running,
  as between the construction of the object, which registers the handler, and \<open>run()\<close>.
\<close>

theorem signal_handler_without_running_loop:
  "signal_handler 15 before_run =
     (\<lparr> tasks = [], loop_running = False, shutdown_event = False, db_session = None,
        effects = [Log INFO ''signal {signum} received, initiating graceful shutdown...''
                     [ArgInt 15]] \<rparr>,
      Raises (RuntimeError ''no running event loop''))"
  by (simp add: before_run_def signal_handler_def create_task_def emit_def)

text \<open>
  C8. The shutdown event is unset in a newly constructed object; no sequence of operations
  of the coordinator clears it once it is set; and an operation that sets it is a run of
  \<open>shutdown_procedures\<close> that has returned, with every enumerated task done.
\<close>

theorem shutdown_event_single_use:
  "(HiveAgent_init basic_retrieve base_dir model functions instruction retrieve required_exts
        loop_tasks running = Inr (a, h0) \<longrightarrow> \<not> shutdown_event h0)
   \<and> (shutdown_event h \<longrightarrow> shutdown_event (fold exec ops h))
   \<and> (\<not> shutdown_event h \<and> shutdown_event (exec op h) \<longrightarrow>
        (\<exists>order cur schedule. op = OpShutdownProcedures order cur schedule
           \<and> snd (shutdown_procedures order cur schedule h) = Ended (Returns ())
           \<and> (\<forall>t\<in>set (enumerate_tasks order cur h). is_done (exec op h) t)))"
proof (intro conjI impI)
  assume "HiveAgent_init basic_retrieve base_dir model functions instruction retrieve
            required_exts loop_tasks running = Inr (a, h0)"
  then show "\<not> shutdown_event h0"
    by (auto simp: HiveAgent_init_def Let_def split: sum.splits)
next
  assume "shutdown_event h" then show "shutdown_event (fold exec ops h)"
    by (rule fold_exec_keeps_event)
next
  assume a: "\<not> shutdown_event h \<and> shutdown_event (exec op h)"
  show "\<exists>order cur schedule. op = OpShutdownProcedures order cur schedule
           \<and> snd (shutdown_procedures order cur schedule h) = Ended (Returns ())
           \<and> (\<forall>t\<in>set (enumerate_tasks order cur h). is_done (exec op h) t)"
  proof (cases op)
    case (OpShutdownProcedures order cur schedule)
    with a have ret: "snd (shutdown_procedures order cur schedule h) = Ended (Returns ())"
      by (auto simp: shutdown_procedures_event)
    then have running: "loop_running h"
      by (rule contrapos_pp) (simp add: shutdown_procedures_not_running)
    have begun: "\<not> cancelled_before_start cur h"
      using ret running by (auto simp: shutdown_procedures_cancelled_before_start)
    have "\<forall>t\<in>set (enumerate_tasks order cur h).
            is_done (fst (shutdown_procedures order cur schedule h)) t"
      using shutdown_procedures_summary(2) [OF _ running begun, of order schedule] ret
      by (metis prod.collapse)
    with ret OpShutdownProcedures show ?thesis by simp
  qed (use a in simp_all)
qed

theorem shutdown_event_single_use_witness:
  "HiveAgent_init Pair Absent ''gpt-4'' [] [] (PyBool False) [] [] False =
     Inr (\<lparr> llm = OpenAILLM,
             agent_tools = [FunctionTool get_db_schemas, FunctionTool text_2_sql],
             agent_instruction = [], agent_tool_retriever = None \<rparr>,
          before_run)
   \<and> \<not> shutdown_event before_run
   \<and> \<not> shutdown_event three_dummy_tasks
   \<and> shutdown_event (exec (OpShutdownProcedures [] 3
         [TaskFinishes 0 Cancelled, TaskFinishes 1 Cancelled, TaskFinishes 2 Cancelled,
          OwnTaskWoken])
         three_dummy_tasks)
   \<and> shutdown_event (fold exec
         [OpSignalHandler 2, OpRunServer (Raises CancelledError), OpCleanup,
          OpShutdownProcedures [] 4 []]
         (exec (OpShutdownProcedures [] 3
            [TaskFinishes 0 Cancelled, TaskFinishes 1 Cancelled, TaskFinishes 2 Cancelled,
             OwnTaskWoken])
            three_dummy_tasks))"
proof -
  have set3: "shutdown_event (exec (OpShutdownProcedures [] 3
         [TaskFinishes 0 Cancelled, TaskFinishes 1 Cancelled, TaskFinishes 2 Cancelled,
          OwnTaskWoken])
         three_dummy_tasks)"
    by code_simp
  have init: "HiveAgent_init Pair Absent ''gpt-4'' [] [] (PyBool False) [] [] False =
     Inr (\<lparr> llm = OpenAILLM,
             agent_tools = [FunctionTool get_db_schemas, FunctionTool text_2_sql],
             agent_instruction = [], agent_tool_retriever = None \<rparr>,
          before_run)"
    by (simp add: HiveAgent_init_def HiveAgent_setup_def select_tools_def
        is_base_dir_not_empty_def retrieve_condition_def tools_from_funcs_def
        provider_branch_def starts_with_def before_run_def Let_def)
  have unset: "\<not> shutdown_event three_dummy_tasks" by (simp add: three_dummy_tasks_def)
  note single_use = shutdown_event_single_use [of Pair Absent "''gpt-4''" "[]" "[]"
        "PyBool False" "[]" "[]"
        False "\<lparr> llm = OpenAILLM,
             agent_tools = [FunctionTool get_db_schemas, FunctionTool text_2_sql],
             agent_instruction = [], agent_tool_retriever = None \<rparr>" before_run
        "exec (OpShutdownProcedures [] 3
           [TaskFinishes 0 Cancelled, TaskFinishes 1 Cancelled, TaskFinishes 2 Cancelled,
            OwnTaskWoken])
           three_dummy_tasks"
        "[OpSignalHandler 2, OpRunServer (Raises CancelledError), OpCleanup,
          OpShutdownProcedures [] 4 []]"]
  from single_use [THEN conjunct1] init have fresh: "\<not> shutdown_event before_run" by blast
  from single_use [THEN conjunct2, THEN conjunct1] set3
  have kept: "shutdown_event (fold exec
         [OpSignalHandler 2, OpRunServer (Raises CancelledError), OpCleanup,
          OpShutdownProcedures [] 4 []]
         (exec (OpShutdownProcedures [] 3
            [TaskFinishes 0 Cancelled, TaskFinishes 1 Cancelled, TaskFinishes 2 Cancelled,
             OwnTaskWoken])
            three_dummy_tasks))"
    by blast
  from init fresh unset set3 kept show ?thesis by blast
qed

end
